theory Spec2Isabelle
  imports Complex_Main "HOL-Library.Log_Nat"
begin

section \<open>Python values\<close>

text \<open>
  The program is \<^verbatim>\<open>src/data/parser.py\<close>, class \<^verbatim>\<open>GPCRFastaParser\<close>. A Python
  \<^verbatim>\<open>str\<close> is modelled as a \<^typ>\<open>string\<close> whose characters are the code points
  0..255; on these \<^verbatim>\<open>\d\<close> is the ten ASCII digits and \<^verbatim>\<open>str.isspace\<close> holds of the
  twelve code points listed in \<open>isspace\<close>. Every exception the code can raise is a
  value of \<open>py_error\<close>, and a function that may raise returns \<open>py_error + 'a\<close>.
\<close>

datatype py_error = KeyError | IndexError | ValueError

definition isspace :: "char \<Rightarrow> bool" where
  "isspace c \<longleftrightarrow>
     (of_char c :: nat) \<in> {9, 10, 11, 12, 13, 28, 29, 30, 31, 32, 133, 160}"

definition isdigit :: "char \<Rightarrow> bool" where
  \<comment> \<open>the class \<^verbatim>\<open>\d\<close>\<close>
  "isdigit c \<longleftrightarrow> c \<in> set ''0123456789''"

definition isidchar :: "char \<Rightarrow> bool" where
  \<comment> \<open>the class \<^verbatim>\<open>[A-Z0-9]\<close>\<close>
  "isidchar c \<longleftrightarrow> c \<in> set ''ABCDEFGHIJKLMNOPQRSTUVWXYZ0123456789''"

text \<open>\<^verbatim>\<open>s.replace(c, new)\<close> for a pattern \<open>c\<close> of one character.\<close>

definition replace :: "char \<Rightarrow> string \<Rightarrow> string \<Rightarrow> string" where
  "replace c new s = concat (map (\<lambda>x. if x = c then new else [x]) s)"

text \<open>\<^verbatim>\<open>s.count(c)\<close> for a pattern of one character.\<close>

definition count :: "char \<Rightarrow> string \<Rightarrow> nat" where
  "count c s = length (filter (\<lambda>x. x = c) s)"

text \<open>
  \<^verbatim>\<open>s.split()\<close>: the maximal runs of non-whitespace characters, in order; leading and
  trailing whitespace gives no empty token.
\<close>

function split :: "string \<Rightarrow> string list" where
  "split s =
     (let t = dropWhile isspace s
      in if t = [] then []
         else takeWhile (\<lambda>c. \<not> isspace c) t # split (dropWhile (\<lambda>c. \<not> isspace c) t))"
  by pat_completeness auto
termination
proof (relation "measure length")
  show "wf (measure length)" by simp
next
  fix s t :: string
  assume t: "t = dropWhile isspace s" and ne: "t \<noteq> []"
  obtain c cs where tc: "t = c # cs" using ne by (cases t) simp_all
  have "\<not> isspace (hd (dropWhile isspace s))"
    using t ne by (metis hd_dropWhile)
  then have "\<not> isspace c" using tc t by simp
  then have "length (dropWhile (\<lambda>c. \<not> isspace c) t) \<le> length cs"
    using tc by (simp add: length_dropWhile_le)
  also have "length cs < length t" using tc by simp
  also have "length t \<le> length s" using t by (simp add: length_dropWhile_le)
  finally show "(dropWhile (\<lambda>c. \<not> isspace c) t, s) \<in> measure length" by simp
qed

declare split.simps [simp del]

text \<open>\<^verbatim>\<open>xs[0]\<close> raises IndexError on the empty list.\<close>

definition first :: "'a list \<Rightarrow> py_error + 'a" where
  "first xs = (case xs of [] \<Rightarrow> Inl IndexError | x # _ \<Rightarrow> Inr x)"

section \<open>The header convention\<close>

text \<open>
  \<^verbatim>\<open>re.search(r'UniRef\d+_([A-Z0-9]+)', header)\<close>. \<open>match_here\<close> is the match
  anchored at the start of its argument: the literal, the greedy digit run, the
  underscore, the greedy captured run. A shorter digit run is followed by a digit, never
  by the underscore, so backtracking into \<^verbatim>\<open>\d+\<close> finds nothing new. \<open>search\<close>
  tries the start positions from left to right and returns group 1 of the first match.
\<close>

fun strip_prefix :: "string \<Rightarrow> string \<Rightarrow> string option" where
  "strip_prefix [] s = Some s"
| "strip_prefix (p # ps) [] = None"
| "strip_prefix (p # ps) (c # cs) = (if p = c then strip_prefix ps cs else None)"

definition match_here :: "string \<Rightarrow> string option" where
  "match_here s =
     (case strip_prefix ''UniRef'' s of
        None \<Rightarrow> None
      | Some r \<Rightarrow>
          if takeWhile isdigit r = [] then None
          else (case dropWhile isdigit r of
                  [] \<Rightarrow> None
                | u # r' \<Rightarrow>
                    if u \<noteq> CHR ''_'' then None
                    else if takeWhile isidchar r' = [] then None
                    else Some (takeWhile isidchar r')))"

fun search :: "string \<Rightarrow> string option" where
  "search [] = match_here []"
| "search (c # cs) =
     (case match_here (c # cs) of Some g \<Rightarrow> Some g | None \<Rightarrow> search cs)"

text \<open>
  \<^verbatim>\<open>_extract_uniref_id\<close>: group 1 of the match when there is one, else
  \<^verbatim>\<open>header.split()[0].replace('>', '')\<close>.
\<close>

definition fallback_id :: "string \<Rightarrow> py_error + string" where
  "fallback_id header =
     (case first (split header) of
        Inl e \<Rightarrow> Inl e
      | Inr tok \<Rightarrow> Inr (replace CHR ''>'' [] tok))"

definition extract_uniref_id :: "string \<Rightarrow> py_error + string" where
  "extract_uniref_id header =
     (case search header of
        Some g \<Rightarrow> Inr g
      | None \<Rightarrow> fallback_id header)"

text \<open>\<^verbatim>\<open>remove_gaps\<close>: \<^verbatim>\<open>sequence.replace('-', '')\<close>.\<close>

definition remove_gaps :: "string \<Rightarrow> string" where
  "remove_gaps sequence = replace CHR ''-'' [] sequence"

section \<open>Floating-point arithmetic\<close>

text \<open>
  A finite Python \<^verbatim>\<open>float\<close> (an IEEE 754 double) is modelled by its exact value, a
  rational. \<open>fl\<close> rounds a rational to the nearest double: the nearest multiple of
  \<open>2 powi (e - 52)\<close> where \<open>e\<close> is the binary exponent of the argument, a tie going to
  the even significand. The exponent range is not modelled; every float below is 0 or
  lies between \<open>1 / length\<close> of a Python string and 100, far inside the normal range.
  \<open>rhe\<close> rounds to the nearest integer, a tie going to the even one.
\<close>

definition rhe :: "rat \<Rightarrow> int" where
  "rhe x =
     (let f = \<lfloor>x\<rfloor>; d = x - of_int f
      in if d < 1 / 2 then f
         else if 1 / 2 < d then f + 1
         else if even f then f else f + 1)"

definition binexp :: "rat \<Rightarrow> int" where
  \<comment> \<open>\<open>\<lfloor>log\<^sub>2 x\<rfloor>\<close> for \<open>0 < x\<close>\<close>
  "binexp x =
     (let k = bitlen (fst (quotient_of x)) - bitlen (snd (quotient_of x))
      in if 2 powi k \<le> x then k else k - 1)"

definition fl :: "rat \<Rightarrow> rat" where
  "fl x =
     (if x = 0 then 0
      else of_int (rhe (x / 2 powi (binexp \<bar>x\<bar> - 52))) * 2 powi (binexp \<bar>x\<bar> - 52))"

text \<open>
  \<^verbatim>\<open>a / b\<close> on integers is correctly rounded; \<^verbatim>\<open>x * y\<close> on floats rounds the exact
  product; \<^verbatim>\<open>round(x, 2)\<close> on a float rounds the exact value of \<open>x\<close> to two decimals, a
  tie going to the even digit, and returns the double nearest to that decimal.
\<close>

definition truediv :: "int \<Rightarrow> int \<Rightarrow> rat" where
  "truediv a b = fl (of_int a / of_int b)"

definition fmul :: "rat \<Rightarrow> rat \<Rightarrow> rat" where
  "fmul x y = fl (x * y)"

definition round2 :: "rat \<Rightarrow> rat" where
  "round2 x = fl (of_int (rhe (x * 100)) / 100)"

section \<open>Records and rows\<close>

text \<open>
  \<open>seq_record\<close> is the \<^verbatim>\<open>SeqRecord\<close> that \<^verbatim>\<open>SeqIO.parse\<close> yields (the three
  attributes the parser reads); \<open>row\<close> is the dictionary appended to
  \<^verbatim>\<open>sequences_data\<close>, its keys \<^verbatim>\<open>id\<close> and \<^verbatim>\<open>length\<close> renamed.
\<close>

record seq_record =
  rec_id :: string
  description :: string
  seq :: string

record row =
  id_col :: string
  uniref_id :: string
  full_header :: string
  sequence :: string
  length_col :: int
  gap_count :: int
  gap_percentage :: rat

text \<open>The body of the loop of \<^verbatim>\<open>parse\<close>, lines 39 to 58.\<close>

definition make_row :: "seq_record \<Rightarrow> py_error + row" where
  "make_row record =
     (case extract_uniref_id (description record) of
        Inl e \<Rightarrow> Inl e
      | Inr uid \<Rightarrow>
          let s = seq record;
              n = int (length s);
              g = int (count CHR ''-'' s);
              p = (if n > 0 then fmul (truediv g n) 100 else 0)
          in Inr \<lparr>id_col = rec_id record, uniref_id = uid,
                  full_header = description record, sequence = s,
                  length_col = n, gap_count = g, gap_percentage = round2 p\<rparr>)"

text \<open>The loop: rows are appended in order, and the first exception ends it.\<close>

fun collect :: "seq_record list \<Rightarrow> py_error + row list" where
  "collect [] = Inr []"
| "collect (r # rs) =
     (case make_row r of
        Inl e \<Rightarrow> Inl e
      | Inr x \<Rightarrow> (case collect rs of Inl e \<Rightarrow> Inl e | Inr xs \<Rightarrow> Inr (x # xs)))"

section \<open>The data frame\<close>

text \<open>
  A \<^verbatim>\<open>pandas.DataFrame\<close> is its column labels and its rows.
  \<^verbatim>\<open>pd.DataFrame(sequences_data)\<close> takes the labels from the dictionaries, so the
  frame built from the empty list has no column at all, and \<^verbatim>\<open>df[label]\<close> on a
  missing label raises KeyError. A frame with the seven labels and no row is what a
  boolean mask that selects nothing returns.
\<close>

record dataframe =
  columns :: "string list"
  rows :: "row list"

definition row_columns :: "string list" where
  "row_columns = [''id'', ''uniref_id'', ''full_header'', ''sequence'', ''length'',
                  ''gap_count'', ''gap_percentage'']"

definition pd_DataFrame :: "row list \<Rightarrow> dataframe" where
  "pd_DataFrame data = \<lparr>columns = (if data = [] then [] else row_columns), rows = data\<rparr>"

definition column :: "dataframe \<Rightarrow> string \<Rightarrow> (row \<Rightarrow> 'a) \<Rightarrow> py_error + 'a list" where
  "column df label field =
     (if label \<in> set (columns df) then Inr (map field (rows df)) else Inl KeyError)"

section \<open>The parser\<close>

text \<open>
  \<^verbatim>\<open>SeqIO.parse(path, "fasta")\<close> is Biopython's FASTA iterator. It is not part of
  the repository, and how it treats text before the first marker line and whitespace
  inside a sequence differs between its releases, so it is not modelled: \<open>parse\<close>
  takes the list of the records the iterator yields, in the order it yields them. For
  the file without a marker line that list is empty, and for a marker line
  \<^verbatim>\<open>>\<close> alone the record has the empty identifier and the empty description.

  \<^verbatim>\<open>parse\<close>: the loop over the records, the frame, and the two summary lines it
  prints, which read the columns \<^verbatim>\<open>length\<close> and \<^verbatim>\<open>gap_percentage\<close> of the frame
  (lines 62 and 63) before the frame is returned.
\<close>

definition parse :: "seq_record list \<Rightarrow> py_error + dataframe" where
  "parse records =
     (case collect records of
        Inl e \<Rightarrow> Inl e
      | Inr sequences_data \<Rightarrow>
          let df = pd_DataFrame sequences_data
          in (case column df ''length'' length_col of
                Inl e \<Rightarrow> Inl e
              | Inr _ \<Rightarrow>
                  (case column df ''gap_percentage'' gap_percentage of
                     Inl e \<Rightarrow> Inl e
                   | Inr _ \<Rightarrow> Inr df)))"

text \<open>
  \<^verbatim>\<open>get_sequence_by_id\<close>: the boolean mask on column \<^verbatim>\<open>uniref_id\<close> keeps the
  matching rows in order; \<^verbatim>\<open>result.iloc[0]['sequence']\<close> is the sequence of the first.
\<close>

definition get_sequence_by_id :: "dataframe \<Rightarrow> string \<Rightarrow> py_error + string" where
  "get_sequence_by_id df uid =
     (case column df ''uniref_id'' uniref_id of
        Inl e \<Rightarrow> Inl e
      | Inr ids \<Rightarrow>
          let result = df\<lparr>rows := filter (\<lambda>r. uniref_id r = uid) (rows df)\<rparr>
          in if length (rows result) = 0 then Inl ValueError
             else (case first (rows result) of
                     Inl e \<Rightarrow> Inl e
                   | Inr r \<Rightarrow>
                       if ''sequence'' \<in> set (columns result) then Inr (sequence r)
                       else Inl KeyError))"

section \<open>Statistics\<close>

text \<open>
  A pandas reduction of a column with no row is NaN for \<^verbatim>\<open>mean\<close>, \<^verbatim>\<open>min\<close> and
  \<^verbatim>\<open>max\<close>, and 0 for the \<^verbatim>\<open>sum\<close> of a boolean column.

  The mean of the integer column is the float sum of the column divided by the count.
  The lengths are non-negative, so while their total is at most \<open>2 ^ 53\<close> every partial
  sum is an integer the float holds exactly, in whatever order pandas adds; \<open>mean_int\<close>
  is the mean under that bound. The mean of the float column depends on the order of
  the additions, which the source does not fix: it is the parameter \<open>fmean\<close> of
  \<open>get_statistics\<close>, the mean pandas computes of a column with at least one row.
\<close>

datatype 'a or_nan = NaN | Val 'a

definition mean_int :: "int list \<Rightarrow> rat or_nan" where
  "mean_int xs =
     (if xs = [] then NaN else Val (fl (of_int (sum_list xs) / of_int (int (length xs)))))"

definition mean_float :: "(rat list \<Rightarrow> rat) \<Rightarrow> rat list \<Rightarrow> rat or_nan" where
  "mean_float fmean xs = (if xs = [] then NaN else Val (fmean xs))"

definition min_int :: "int list \<Rightarrow> int or_nan" where
  "min_int xs = (case xs of [] \<Rightarrow> NaN | x # ys \<Rightarrow> Val (fold min ys x))"

definition max_int :: "int list \<Rightarrow> int or_nan" where
  "max_int xs = (case xs of [] \<Rightarrow> NaN | x # ys \<Rightarrow> Val (fold max ys x))"

record statistics =
  total_sequences :: int
  avg_length :: "rat or_nan"
  min_length :: "int or_nan"
  max_length :: "int or_nan"
  avg_gap_percentage :: "rat or_nan"
  sequences_with_gaps :: int

definition get_statistics :: "(rat list \<Rightarrow> rat) \<Rightarrow> dataframe \<Rightarrow> py_error + statistics" where
  "get_statistics fmean df =
     (case column df ''length'' length_col of
        Inl e \<Rightarrow> Inl e
      | Inr lengths \<Rightarrow>
          (case column df ''gap_percentage'' gap_percentage of
             Inl e \<Rightarrow> Inl e
           | Inr percentages \<Rightarrow>
               (case column df ''gap_count'' gap_count of
                  Inl e \<Rightarrow> Inl e
                | Inr counts \<Rightarrow>
                    Inr \<lparr>total_sequences = int (length (rows df)),
                         avg_length = mean_int lengths,
                         min_length = min_int lengths,
                         max_length = max_int lengths,
                         avg_gap_percentage = mean_float fmean percentages,
                         sequences_with_gaps = int (length (filter (\<lambda>g. g > 0) counts))\<rparr>)))"

section \<open>The statements of the specification\<close>

text \<open>
  The definitions of this section follow the words of the specification, not the code;
  the theorems compare them with the code.

  \<open>uniref_at header n cap\<close>: at position \<open>n\<close> of the header stands the literal
  \<^verbatim>\<open>UniRef\<close>, then one or more decimal digits, an underscore, and \<open>cap\<close>, a maximal
  run of upper-case letters and digits.
\<close>

definition uniref_at :: "string \<Rightarrow> nat \<Rightarrow> string \<Rightarrow> bool" where
  "uniref_at header n cap \<longleftrightarrow>
     (\<exists>ds rest. drop n header = ''UniRef'' @ ds @ ''_'' @ cap @ rest
        \<and> ds \<noteq> [] \<and> (\<forall>c\<in>set ds. isdigit c)
        \<and> cap \<noteq> [] \<and> (\<forall>c\<in>set cap. isidchar c)
        \<and> (rest = [] \<or> \<not> isidchar (hd rest)))"

text \<open>
  \<open>first_token header tok\<close>: \<open>tok\<close> is the first whitespace-delimited token of the
  header. \<open>strip_leading_marker\<close> removes a marker character from the front of a token
  and no other.
\<close>

definition first_token :: "string \<Rightarrow> string \<Rightarrow> bool" where
  "first_token header tok \<longleftrightarrow>
     (\<exists>ws rest. header = ws @ tok @ rest
        \<and> (\<forall>c\<in>set ws. isspace c)
        \<and> tok \<noteq> [] \<and> (\<forall>c\<in>set tok. \<not> isspace c)
        \<and> (rest = [] \<or> isspace (hd rest)))"

definition strip_leading_marker :: "string \<Rightarrow> string" where
  "strip_leading_marker tok =
     (case tok of [] \<Rightarrow> [] | c # cs \<Rightarrow> if c = CHR ''>'' then cs else tok)"

text \<open>
  The invariant of the specification, \<^verbatim>\<open>round(100 * gap_count / length, 2)\<close> when the
  length is positive and 0 otherwise: the product is an integer, the quotient is
  rounded once.
\<close>

definition spec_gap_percentage :: "int \<Rightarrow> int \<Rightarrow> rat" where
  "spec_gap_percentage g n = (if n > 0 then round2 (truediv (100 * g) n) else 0)"

section \<open>Strings\<close>

lemma replace_empty_filter: "replace c [] s = filter (\<lambda>x. x \<noteq> c) s"
  by (induction s) (simp_all add: replace_def)

lemma length_filter_split:
  "length (filter (\<lambda>x. x \<noteq> c) s) + count c s = length s"
  unfolding count_def by (induction s) simp_all

section \<open>Rows\<close>

lemma make_row_fields:
  assumes "make_row r = Inr x"
  shows "sequence x = seq r" "length_col x = int (length (seq r))"
    "gap_count x = int (count CHR ''-'' (seq r))" "full_header x = description r"
    "id_col x = rec_id r" "extract_uniref_id (description r) = Inr (uniref_id x)"
  using assms by (auto simp: make_row_def Let_def split: sum.splits)

section \<open>Removing gaps\<close>

text \<open>
  Claim C8. For every sequence \<open>s\<close>, \<open>remove_gaps s\<close> contains no gap character, its
  length is the length of \<open>s\<close> minus the number of gap characters of \<open>s\<close>, and it is
  \<open>s\<close> with the gap characters filtered out, so the other characters keep their order.
  For every row \<open>x\<close> that the parser builds from a record, the length of
  \<open>remove_gaps (sequence x)\<close> is \<open>length_col x - gap_count x\<close>.
\<close>

theorem remove_gaps_strips:
  "CHR ''-'' \<notin> set (remove_gaps s)
   \<and> int (length (remove_gaps s)) = int (length s) - int (count CHR ''-'' s)
   \<and> remove_gaps s = filter (\<lambda>c. c \<noteq> CHR ''-'') s
   \<and> (make_row r = Inr x \<longrightarrow>
        int (length (remove_gaps (sequence x))) = length_col x - gap_count x)"
proof -
  have f: "remove_gaps t = filter (\<lambda>c. c \<noteq> CHR ''-'') t" for t
    by (simp add: remove_gaps_def replace_empty_filter)
  have l: "int (length (remove_gaps t)) = int (length t) - int (count CHR ''-'' t)" for t
    using length_filter_split [of "CHR ''-''" t] by (simp add: f)
  have "CHR ''-'' \<notin> set (remove_gaps s)" by (simp add: f)
  moreover have "make_row r = Inr x \<longrightarrow>
        int (length (remove_gaps (sequence x))) = length_col x - gap_count x"
    using l [of "seq r"] by (auto simp: make_row_fields)
  ultimately show ?thesis using f l by blast
qed

theorem remove_gaps_strips_witness:
  "make_row \<lparr>rec_id = ''b'', description = ''b two'', seq = ''--AA''\<rparr>
     = Inr \<lparr>id_col = ''b'', uniref_id = ''b'', full_header = ''b two'', sequence = ''--AA'',
            length_col = 4, gap_count = 2, gap_percentage = 50\<rparr>
   \<and> remove_gaps ''--AA'' = ''AA''
   \<and> int (length (remove_gaps ''--AA'')) = 4 - 2"
proof -
  let ?r = "\<lparr>rec_id = ''b'', description = ''b two'', seq = ''--AA''\<rparr>"
  let ?x = "\<lparr>id_col = ''b'', uniref_id = ''b'', full_header = ''b two'', sequence = ''--AA'',
            length_col = 4, gap_count = 2, gap_percentage = 50\<rparr>"
  have m: "make_row ?r = Inr ?x" by code_simp
  have "int (length (remove_gaps (sequence ?x))) = length_col ?x - gap_count ?x"
    using remove_gaps_strips [of "''--AA''" ?r ?x] m by blast
  moreover have "remove_gaps ''--AA'' = ''AA''"
    using remove_gaps_strips [of "''--AA''" ?r ?x] by simp
  ultimately show ?thesis using m by simp
qed

section \<open>The secondary identifier\<close>

text \<open>
  Claim C3. The specification has the secondary identifier always non-empty, on an
  empty or all-whitespace header too. The code raises IndexError there, since
  \<^verbatim>\<open>header.split()\<close> is the empty list; a file whose marker line is \<^verbatim>\<open>>\<close> alone
  gives a record with such a header, and \<^verbatim>\<open>parse\<close> ends with that exception. On a
  header whose first token is made of marker characters the code returns the empty
  string.
\<close>

theorem extract_uniref_id_no_token:
  "extract_uniref_id [] = Inl IndexError
   \<and> extract_uniref_id ''   '' = Inl IndexError
   \<and> extract_uniref_id ''> x'' = Inr []
   \<and> parse [\<lparr>rec_id = [], description = [], seq = ''ACGT''\<rparr>] = Inl IndexError"
  by code_simp

section \<open>The pattern search\<close>

text \<open>
  The anchored match succeeds exactly on the strings the pattern describes, and the
  search returns the capture of the leftmost position at which it succeeds.
\<close>

lemma strip_prefix_Some: "strip_prefix p s = Some r \<longleftrightarrow> s = p @ r"
  by (induction p s rule: strip_prefix.induct) auto

lemma not_isdigit_underscore: "\<not> isdigit CHR ''_''"
  by (simp add: isdigit_def)

lemma takeWhile_run:
  assumes "\<forall>c\<in>set xs. P c" "rest = [] \<or> \<not> P (hd rest)"
  shows "takeWhile P (xs @ rest) = xs" "dropWhile P (xs @ rest) = rest"
  using assms by (cases rest; simp add: takeWhile_append2 dropWhile_append2)+

lemma match_here_iff:
  "match_here s = Some cap \<longleftrightarrow>
     (\<exists>ds rest. s = ''UniRef'' @ ds @ ''_'' @ cap @ rest
        \<and> ds \<noteq> [] \<and> (\<forall>c\<in>set ds. isdigit c)
        \<and> cap \<noteq> [] \<and> (\<forall>c\<in>set cap. isidchar c)
        \<and> (rest = [] \<or> \<not> isidchar (hd rest)))"
  (is "?L \<longleftrightarrow> ?R")
proof
  assume ?L
  then obtain r where r: "strip_prefix ''UniRef'' s = Some r"
    by (auto simp: match_here_def split: option.splits)
  then have s: "s = ''UniRef'' @ r" by (simp only: strip_prefix_Some)
  from \<open>?L\<close> r obtain r' where
    ds: "takeWhile isdigit r \<noteq> []" and d: "dropWhile isdigit r = CHR ''_'' # r'"
    and c: "takeWhile isidchar r' \<noteq> []" and cap: "cap = takeWhile isidchar r'"
    by (auto simp: match_here_def split: list.splits if_splits)
  let ?ds = "takeWhile isdigit r" and ?rest = "dropWhile isidchar r'"
  have "r = ?ds @ CHR ''_'' # r'" using d by (metis takeWhile_dropWhile_id)
  moreover have "r' = cap @ ?rest" using cap by simp
  ultimately have "s = ''UniRef'' @ ?ds @ ''_'' @ cap @ ?rest" using s by simp
  moreover have "\<forall>c\<in>set ?ds. isdigit c" by (auto dest: set_takeWhileD)
  moreover have "\<forall>c\<in>set cap. isidchar c" using cap by (auto dest: set_takeWhileD)
  moreover have "?rest = [] \<or> \<not> isidchar (hd ?rest)" by (metis hd_dropWhile)
  ultimately show ?R using ds c cap by blast
next
  assume ?R
  then obtain ds rest where s: "s = ''UniRef'' @ ds @ ''_'' @ cap @ rest"
    and ds: "ds \<noteq> []" "\<forall>c\<in>set ds. isdigit c"
    and cap: "cap \<noteq> []" "\<forall>c\<in>set cap. isidchar c"
    and rest: "rest = [] \<or> \<not> isidchar (hd rest)" by blast
  let ?r = "ds @ CHR ''_'' # cap @ rest"
  have p: "strip_prefix ''UniRef'' s = Some ?r" using s by (simp only: strip_prefix_Some) simp
  have t: "takeWhile isdigit ?r = ds" "dropWhile isdigit ?r = CHR ''_'' # cap @ rest"
    using takeWhile_run [of ds isdigit "CHR ''_'' # cap @ rest"] ds not_isdigit_underscore
    by simp_all
  have u: "takeWhile isidchar (cap @ rest) = cap"
    using takeWhile_run(1) [of cap isidchar rest] cap rest by simp
  show ?L unfolding match_here_def p using t u ds cap by simp
qed

lemma uniref_at_match_here: "uniref_at header n cap \<longleftrightarrow> match_here (drop n header) = Some cap"
  by (simp only: uniref_at_def match_here_iff)

lemma match_here_Nil: "match_here [] = None"
  by (simp add: match_here_def)

lemma search_Some_iff:
  "search h = Some cap \<longleftrightarrow>
     (\<exists>n. match_here (drop n h) = Some cap \<and> (\<forall>m<n. match_here (drop m h) = None))"
proof (induction h)
  case Nil
  then show ?case by (simp add: match_here_Nil)
next
  case (Cons c cs)
  show ?case
  proof (cases "match_here (c # cs)")
    case (Some g)
    have "(\<exists>n. match_here (drop n (c # cs)) = Some cap
            \<and> (\<forall>m<n. match_here (drop m (c # cs)) = None)) \<longleftrightarrow> g = cap"
    proof
      assume "\<exists>n. match_here (drop n (c # cs)) = Some cap
            \<and> (\<forall>m<n. match_here (drop m (c # cs)) = None)"
      then obtain n where n: "match_here (drop n (c # cs)) = Some cap"
        "\<forall>m<n. match_here (drop m (c # cs)) = None" by blast
      have "n = 0"
      proof (rule ccontr)
        assume "n \<noteq> 0"
        then have "match_here (drop 0 (c # cs)) = None" using n(2) by blast
        then show False using Some by simp
      qed
      then show "g = cap" using n(1) Some by simp
    next
      assume "g = cap"
      then have "match_here (drop 0 (c # cs)) = Some cap
            \<and> (\<forall>m<0. match_here (drop m (c # cs)) = None)" using Some by simp
      then show "\<exists>n. match_here (drop n (c # cs)) = Some cap
            \<and> (\<forall>m<n. match_here (drop m (c # cs)) = None)" by blast
    qed
    then show ?thesis using Some by simp
  next
    case None
    have "(\<exists>n. match_here (drop n (c # cs)) = Some cap
            \<and> (\<forall>m<n. match_here (drop m (c # cs)) = None))
        \<longleftrightarrow> (\<exists>k. match_here (drop k cs) = Some cap
            \<and> (\<forall>m<k. match_here (drop m cs) = None))" (is "?A \<longleftrightarrow> ?B")
    proof
      assume ?A
      then obtain n where n: "match_here (drop n (c # cs)) = Some cap"
        "\<forall>m<n. match_here (drop m (c # cs)) = None" by blast
      then have "n \<noteq> 0" using None by (cases n) auto
      then obtain k where k: "n = Suc k" by (cases n) auto
      have "match_here (drop k cs) = Some cap" using n(1) k by simp
      moreover have "\<forall>m<k. match_here (drop m cs) = None"
      proof (intro allI impI)
        fix m assume "m < k"
        then have "Suc m < n" using k by simp
        then have "match_here (drop (Suc m) (c # cs)) = None" using n(2) by blast
        then show "match_here (drop m cs) = None" by simp
      qed
      ultimately show ?B by blast
    next
      assume ?B
      then obtain k where k: "match_here (drop k cs) = Some cap"
        "\<forall>m<k. match_here (drop m cs) = None" by blast
      have "match_here (drop (Suc k) (c # cs)) = Some cap" using k(1) by simp
      moreover have "\<forall>m<Suc k. match_here (drop m (c # cs)) = None"
      proof (intro allI impI)
        fix m assume m: "m < Suc k"
        show "match_here (drop m (c # cs)) = None"
        proof (cases m)
          case 0
          then show ?thesis using None by simp
        next
          case (Suc j)
          then show ?thesis using m k(2) by simp
        qed
      qed
      ultimately show ?A by blast
    qed
    then show ?thesis using None Cons.IH by simp
  qed
qed

lemma search_None_iff: "search h = None \<longleftrightarrow> (\<forall>n. match_here (drop n h) = None)"
proof (induction h)
  case Nil
  then show ?case by (simp add: match_here_Nil)
next
  case (Cons c cs)
  have "(\<forall>n. match_here (drop n (c # cs)) = None)
      \<longleftrightarrow> match_here (c # cs) = None \<and> (\<forall>n. match_here (drop n cs) = None)"
    (is "?A \<longleftrightarrow> ?B")
  proof
    assume a: ?A
    have "match_here (drop 0 (c # cs)) = None" using a by blast
    moreover have "match_here (drop n cs) = None" for n
      using a [rule_format, of "Suc n"] by simp
    ultimately show ?B by simp
  next
    assume b: ?B
    show ?A
    proof
      fix n show "match_here (drop n (c # cs)) = None"
        using b by (cases n) simp_all
    qed
  qed
  then show ?case using Cons.IH by (simp split: option.splits)
qed

lemma split_first_token:
  assumes "first_token header tok"
  shows "first (split header) = Inr tok"
proof -
  from assms obtain ws rest where h: "header = ws @ tok @ rest"
    and ws: "\<forall>c\<in>set ws. isspace c"
    and tok: "tok \<noteq> []" "\<forall>c\<in>set tok. \<not> isspace c"
    and rest: "rest = [] \<or> isspace (hd rest)"
    unfolding first_token_def by blast
  have "\<not> isspace (hd (tok @ rest))" using tok by (cases tok) simp_all
  then have d: "dropWhile isspace header = tok @ rest"
    using takeWhile_run(2) [of ws isspace "tok @ rest"] ws h by simp
  have t: "takeWhile (\<lambda>c. \<not> isspace c) (tok @ rest) = tok"
    using takeWhile_run(1) [of tok "\<lambda>c. \<not> isspace c" rest] tok rest by simp
  have "split header = tok # split (dropWhile (\<lambda>c. \<not> isspace c) (tok @ rest))"
    using d t tok by (subst split.simps) (simp add: Let_def)
  then show ?thesis by (simp add: first_def)
qed

lemma no_uniref_search:
  "(\<forall>n cap. \<not> uniref_at header n cap) \<longleftrightarrow> search header = None"
  by (simp add: uniref_at_match_here search_None_iff)

text \<open>
  Claim C4. For every header, the extraction searches the whole header, at every start
  position, for \<^verbatim>\<open>UniRef\<close>, one or more decimal digits, an underscore and a maximal
  run of upper-case letters and digits. When the pattern occurs, the result is the
  captured run of its leftmost occurrence; the result is that of the first-token
  fallback only when the pattern occurs at no position.
\<close>

theorem extract_uniref_id_search:
  "(uniref_at header n cap \<and> (\<forall>m<n. \<forall>c. \<not> uniref_at header m c)
      \<longrightarrow> extract_uniref_id header = Inr cap)
   \<and> ((\<exists>m c. uniref_at header m c)
      \<longrightarrow> (\<exists>k g. uniref_at header k g \<and> (\<forall>m<k. \<forall>c. \<not> uniref_at header m c)
            \<and> extract_uniref_id header = Inr g))
   \<and> ((\<forall>m c. \<not> uniref_at header m c)
      \<longrightarrow> extract_uniref_id header = fallback_id header)"
proof (intro conjI impI)
  assume "uniref_at header n cap \<and> (\<forall>m<n. \<forall>c. \<not> uniref_at header m c)"
  then have "match_here (drop n header) = Some cap
      \<and> (\<forall>m<n. match_here (drop m header) = None)"
    by (simp add: uniref_at_match_here)
  then have "search header = Some cap" unfolding search_Some_iff by blast
  then show "extract_uniref_id header = Inr cap" by (simp add: extract_uniref_id_def)
next
  assume "\<exists>m c. uniref_at header m c"
  then have "search header \<noteq> None" using no_uniref_search [of header] by blast
  then obtain g where g: "search header = Some g" by blast
  then obtain k where "match_here (drop k header) = Some g"
    "\<forall>m<k. match_here (drop m header) = None" unfolding search_Some_iff by blast
  then have "uniref_at header k g \<and> (\<forall>m<k. \<forall>c. \<not> uniref_at header m c)"
    by (simp add: uniref_at_match_here)
  moreover have "extract_uniref_id header = Inr g" using g by (simp add: extract_uniref_id_def)
  ultimately show "\<exists>k g. uniref_at header k g \<and> (\<forall>m<k. \<forall>c. \<not> uniref_at header m c)
            \<and> extract_uniref_id header = Inr g" by blast
next
  assume "\<forall>m c. \<not> uniref_at header m c"
  then have "search header = None" by (simp only: no_uniref_search)
  then show "extract_uniref_id header = fallback_id header"
    by (simp add: extract_uniref_id_def)
qed

theorem extract_uniref_id_search_witness:
  "extract_uniref_id ''id UniRef100_UPI0002747C2C desc'' = Inr ''UPI0002747C2C''
   \<and> extract_uniref_id ''sp|P12345|RHO_HUMAN desc'' = Inr ''sp|P12345|RHO_HUMAN''"
proof -
  let ?h = "''id UniRef100_UPI0002747C2C desc''"
  let ?g = "''sp|P12345|RHO_HUMAN desc''"
  have m3: "match_here (drop 3 ?h) = Some ''UPI0002747C2C''" by code_simp
  have m0: "match_here (drop 0 ?h) = None" by code_simp
  have m1: "match_here (drop 1 ?h) = None" by code_simp
  have m2: "match_here (drop 2 ?h) = None" by code_simp
  have a: "uniref_at ?h 3 ''UPI0002747C2C''" using m3 by (simp only: uniref_at_match_here)
  have b: "\<forall>m<3. \<forall>c. \<not> uniref_at ?h m c"
  proof (intro allI impI)
    fix m :: nat and c assume "m < 3"
    then have "m = 0 \<or> m = 1 \<or> m = 2" by arith
    then have "match_here (drop m ?h) = None" using m0 m1 m2 by blast
    then show "\<not> uniref_at ?h m c" by (simp only: uniref_at_match_here) simp
  qed
  have s: "search ?g = None" by code_simp
  then have n: "\<forall>m c. \<not> uniref_at ?g m c" by (simp only: no_uniref_search)
  have f: "fallback_id ?g = Inr ''sp|P12345|RHO_HUMAN''" by code_simp
  have "extract_uniref_id ?h = Inr ''UPI0002747C2C''"
    using extract_uniref_id_search [of ?h 3 "''UPI0002747C2C''"] a b by blast
  moreover have "extract_uniref_id ?g = fallback_id ?g"
    using extract_uniref_id_search [of ?g 0 "[]"] n by blast
  ultimately show ?thesis using f by simp
qed

text \<open>
  What the fallback computes: for every header in which the pattern does not occur and
  which has a first whitespace-delimited token, the result is that token with every
  marker character deleted, whatever its position in the token.
\<close>

lemma fallback_first_token:
  assumes "\<forall>n cap. \<not> uniref_at header n cap" "first_token header tok"
  shows "extract_uniref_id header = Inr (filter (\<lambda>c. c \<noteq> CHR ''>'') tok)"
proof -
  have "search header = None" using assms(1) by (simp only: no_uniref_search)
  then show ?thesis
    using split_first_token [OF assms(2)]
    by (simp add: extract_uniref_id_def fallback_id_def replace_empty_filter)
qed

lemma fallback_first_token_example:
  "extract_uniref_id ''  >sp|P1>2 desc'' = Inr ''sp|P12''"
proof -
  have n: "\<forall>n cap. \<not> uniref_at ''  >sp|P1>2 desc'' n cap"
  proof -
    have "search ''  >sp|P1>2 desc'' = None" by code_simp
    then show ?thesis by (simp only: no_uniref_search)
  qed
  have "''  >sp|P1>2 desc'' = ''  '' @ ''>sp|P1>2'' @ '' desc''
      \<and> (\<forall>c\<in>set ''  ''. isspace c)
      \<and> ''>sp|P1>2'' \<noteq> [] \<and> (\<forall>c\<in>set ''>sp|P1>2''. \<not> isspace c)
      \<and> ('' desc'' = [] \<or> isspace (hd '' desc''))"
    by (simp add: isspace_def)
  then have f: "first_token ''  >sp|P1>2 desc'' ''>sp|P1>2''"
    unfolding first_token_def by blast
  show ?thesis using fallback_first_token [OF n f] by simp
qed

text \<open>
  Claim C5. On a header without the pattern the result is to be the first token with
  only a leading marker character stripped; the comment at line 82 of the code says the
  same, \<^verbatim>\<open>just take first part after >\<close>. The code calls \<^verbatim>\<open>replace('>', '')\<close>, which
  deletes the marker characters inside the token too. The header \<^verbatim>\<open>a>b c\<close> has no
  pattern and first token \<^verbatim>\<open>a>b\<close>, which has no leading marker: the code returns
  \<^verbatim>\<open>ab\<close>. The header \<^verbatim>\<open>>a>b c\<close> has first token \<^verbatim>\<open>>a>b\<close>, which without its
  leading marker is \<^verbatim>\<open>a>b\<close>: the code returns \<^verbatim>\<open>ab\<close> again.
\<close>

theorem fallback_interior_marker:
  "search ''a>b c'' = None
   \<and> first (split ''a>b c'') = Inr ''a>b''
   \<and> strip_leading_marker ''a>b'' = ''a>b''
   \<and> extract_uniref_id ''a>b c'' = Inr ''ab''
   \<and> search ''>a>b c'' = None
   \<and> first (split ''>a>b c'') = Inr ''>a>b''
   \<and> strip_leading_marker ''>a>b'' = ''a>b''
   \<and> extract_uniref_id ''>a>b c'' = Inr ''ab''"
  by code_simp

section \<open>Lookup by identifier\<close>

lemma filter_first_index:
  assumes "i < length xs" "P (xs ! i)" "\<forall>j<i. \<not> P (xs ! j)"
  shows "filter P xs = xs ! i # filter P (drop (Suc i) xs)"
proof -
  have "\<forall>x\<in>set (take i xs). \<not> P x"
    using assms by (auto simp: in_set_conv_nth)
  then have "filter P (take i xs) = []" by simp
  moreover have "xs = take i xs @ xs ! i # drop (Suc i) xs"
    using assms(1) by (simp add: id_take_nth_drop)
  ultimately show ?thesis using assms(2)
    by (metis append_Nil filter.simps(2) filter_append)
qed

text \<open>
  Claim C6, as the specification states it: the lookup returns the full record of the
  first match. The code returns a string: two frames whose only rows differ in
  identifier and header give the same result, the sequence. A frame with the columns
  and no matching row gives ValueError, and the frame without columns gives KeyError.
\<close>

theorem get_sequence_by_id_counterexample:
  "get_sequence_by_id
     \<lparr>columns = row_columns,
      rows = [\<lparr>id_col = ''P1'', uniref_id = ''X'', full_header = ''P1 one'', sequence = ''MK'',
               length_col = 2, gap_count = 0, gap_percentage = 0\<rparr>]\<rparr> ''X'' = Inr ''MK''
   \<and> get_sequence_by_id
     \<lparr>columns = row_columns,
      rows = [\<lparr>id_col = ''P2'', uniref_id = ''X'', full_header = ''P2 two'', sequence = ''MK'',
               length_col = 2, gap_count = 0, gap_percentage = 0\<rparr>]\<rparr> ''X'' = Inr ''MK''
   \<and> get_sequence_by_id \<lparr>columns = row_columns, rows = []\<rparr> ''X'' = Inl ValueError
   \<and> get_sequence_by_id (pd_DataFrame []) ''X'' = Inl KeyError"
  by code_simp

text \<open>
  Claim C6, amended. For every frame that has the columns \<^verbatim>\<open>uniref_id\<close> and
  \<^verbatim>\<open>sequence\<close> and every identifier, the lookup raises ValueError when no row has
  that identifier, and otherwise returns the sequence, not the record, of the first row
  in file order that has it.
\<close>

theorem get_sequence_by_id_first_match:
  assumes "''uniref_id'' \<in> set (columns df)" "''sequence'' \<in> set (columns df)"
  shows "((\<forall>r\<in>set (rows df). uniref_id r \<noteq> uid) \<longrightarrow>
            get_sequence_by_id df uid = Inl ValueError)
       \<and> (\<forall>i<length (rows df).
            uniref_id (rows df ! i) = uid \<and> (\<forall>j<i. uniref_id (rows df ! j) \<noteq> uid) \<longrightarrow>
            get_sequence_by_id df uid = Inr (sequence (rows df ! i)))"
proof (intro conjI impI allI)
  assume "\<forall>r\<in>set (rows df). uniref_id r \<noteq> uid"
  then have "filter (\<lambda>r. uniref_id r = uid) (rows df) = []" by simp
  then show "get_sequence_by_id df uid = Inl ValueError"
    using assms by (simp add: get_sequence_by_id_def column_def)
next
  fix i
  assume i: "i < length (rows df)"
    and m: "uniref_id (rows df ! i) = uid \<and> (\<forall>j<i. uniref_id (rows df ! j) \<noteq> uid)"
  have "filter (\<lambda>r. uniref_id r = uid) (rows df)
          = rows df ! i # filter (\<lambda>r. uniref_id r = uid) (drop (Suc i) (rows df))"
    using i m by (intro filter_first_index) auto
  then show "get_sequence_by_id df uid = Inr (sequence (rows df ! i))"
    using assms by (simp add: get_sequence_by_id_def column_def first_def)
qed

theorem get_sequence_by_id_first_match_witness:
  "get_sequence_by_id
     \<lparr>columns = row_columns,
      rows = [\<lparr>id_col = ''P1'', uniref_id = ''X'', full_header = ''P1 one'', sequence = ''MK'',
               length_col = 2, gap_count = 0, gap_percentage = 0\<rparr>,
              \<lparr>id_col = ''P2'', uniref_id = ''Y'', full_header = ''P2 two'', sequence = ''GT'',
               length_col = 2, gap_count = 0, gap_percentage = 0\<rparr>,
              \<lparr>id_col = ''P3'', uniref_id = ''Y'', full_header = ''P3 three'', sequence = ''AA'',
               length_col = 2, gap_count = 0, gap_percentage = 0\<rparr>]\<rparr> ''Y'' = Inr ''GT''
   \<and> get_sequence_by_id
     \<lparr>columns = row_columns,
      rows = [\<lparr>id_col = ''P1'', uniref_id = ''X'', full_header = ''P1 one'', sequence = ''MK'',
               length_col = 2, gap_count = 0, gap_percentage = 0\<rparr>]\<rparr> ''Z'' = Inl ValueError"
proof -
  let ?a = "\<lparr>id_col = ''P1'', uniref_id = ''X'', full_header = ''P1 one'', sequence = ''MK'',
               length_col = 2, gap_count = 0, gap_percentage = 0\<rparr>"
  let ?b = "\<lparr>id_col = ''P2'', uniref_id = ''Y'', full_header = ''P2 two'', sequence = ''GT'',
               length_col = 2, gap_count = 0, gap_percentage = 0\<rparr>"
  let ?c = "\<lparr>id_col = ''P3'', uniref_id = ''Y'', full_header = ''P3 three'', sequence = ''AA'',
               length_col = 2, gap_count = 0, gap_percentage = 0\<rparr>"
  let ?df = "\<lparr>columns = row_columns, rows = [?a, ?b, ?c]\<rparr>"
  let ?d1 = "\<lparr>columns = row_columns, rows = [?a]\<rparr>"
  have c: "''uniref_id'' \<in> set (columns ?df)" "''sequence'' \<in> set (columns ?df)"
    "''uniref_id'' \<in> set (columns ?d1)" "''sequence'' \<in> set (columns ?d1)"
    by (simp_all add: row_columns_def)
  have "get_sequence_by_id ?df ''Y'' = Inr (sequence (rows ?df ! 1))"
    using get_sequence_by_id_first_match
      [OF c(1) c(2), of "''Y''", THEN conjunct2, rule_format, of 1]
    by simp
  moreover have "get_sequence_by_id ?d1 ''Z'' = Inl ValueError"
    using get_sequence_by_id_first_match [OF c(3) c(4), of "''Z''", THEN conjunct1]
    by simp
  ultimately show ?thesis by simp
qed

section \<open>Statistics of a frame without rows\<close>

text \<open>
  Claim C1, as the specification states it: statistics of an empty collection raise an
  error. On the frame that has the columns and no row the code raises nothing and
  returns a record of zeros and NaN.
\<close>

theorem get_statistics_empty_counterexample:
  "get_statistics (\<lambda>xs. 0) \<lparr>columns = row_columns, rows = []\<rparr>
     = Inr \<lparr>total_sequences = 0, avg_length = NaN, min_length = NaN, max_length = NaN,
            avg_gap_percentage = NaN, sequences_with_gaps = 0\<rparr>"
  by code_simp

text \<open>
  Claim C1, amended. For every frame without rows, \<^verbatim>\<open>get_statistics\<close> has no check
  of its own: when the frame has the columns \<^verbatim>\<open>length\<close>, \<^verbatim>\<open>gap_percentage\<close> and
  \<^verbatim>\<open>gap_count\<close> it returns the record with both counts 0 and the four other fields
  NaN, and when one of them is missing, as in the frame built from the empty list, it
  raises KeyError.
\<close>

theorem get_statistics_empty:
  assumes "rows df = []"
  shows "get_statistics fmean df =
     (if ''length'' \<in> set (columns df) \<and> ''gap_percentage'' \<in> set (columns df)
         \<and> ''gap_count'' \<in> set (columns df)
      then Inr \<lparr>total_sequences = 0, avg_length = NaN, min_length = NaN, max_length = NaN,
                avg_gap_percentage = NaN, sequences_with_gaps = 0\<rparr>
      else Inl KeyError)"
  using assms
  by (simp add: get_statistics_def column_def mean_int_def mean_float_def min_int_def
      max_int_def)

theorem get_statistics_empty_witness:
  "rows (pd_DataFrame []) = [] \<and> get_statistics (\<lambda>xs. 0) (pd_DataFrame []) = Inl KeyError
   \<and> get_statistics (\<lambda>xs. 1) \<lparr>columns = row_columns, rows = []\<rparr>
     = Inr \<lparr>total_sequences = 0, avg_length = NaN, min_length = NaN, max_length = NaN,
            avg_gap_percentage = NaN, sequences_with_gaps = 0\<rparr>"
proof -
  have e: "rows (pd_DataFrame []) = []" "rows \<lparr>columns = row_columns, rows = []\<rparr> = []"
    by (simp_all add: pd_DataFrame_def)
  show ?thesis
    using get_statistics_empty [OF e(1), of "\<lambda>xs. 0"] get_statistics_empty [OF e(2), of "\<lambda>xs. 1"] e(1)
    by (simp add: pd_DataFrame_def row_columns_def)
qed

section \<open>One row per record\<close>

text \<open>
  When the parser returns a frame, the frame has a row for every record the iterator
  yielded, in the same order, and at least one row.
\<close>

lemma collect_headers:
  "collect recs = Inr rs \<Longrightarrow> map full_header rs = map description recs"
proof (induction recs arbitrary: rs)
  case Nil
  then show ?case by simp
next
  case (Cons r recs)
  then show ?case by (auto split: sum.splits simp: make_row_fields(4))
qed

lemma parse_rows:
  assumes "parse recs = Inr df"
  shows "rows df \<noteq> []"
    "map full_header (rows df) = map description recs"
    "length (rows df) = length recs"
proof -
  from assms obtain rs where c: "collect recs = Inr rs"
    and d: "df = pd_DataFrame rs" and k: "''length'' \<in> set (columns (pd_DataFrame rs))"
    by (auto simp: parse_def Let_def column_def split: sum.splits if_splits)
  show "rows df \<noteq> []" using d k by (auto simp: pd_DataFrame_def split: if_splits)
  show h: "map full_header (rows df) = map description recs"
    using collect_headers [OF c] d by (simp add: pd_DataFrame_def)
  show "length (rows df) = length recs"
    using h [THEN arg_cong, of length] by simp
qed

section \<open>A file without records\<close>

text \<open>
  Claim C9. The specification has a source without marker lines yield the empty
  collection. The iterator yields no record for such a file, the frame built from the
  empty list has no column, and the summary line that reads column \<^verbatim>\<open>length\<close>
  raises KeyError before the frame is returned.
\<close>

theorem parse_no_records:
  "collect [] = Inr [] \<and> columns (pd_DataFrame []) = [] \<and> parse [] = Inl KeyError"
  by code_simp

section \<open>Rounding\<close>

text \<open>
  Rounding to the nearest integer keeps every integer bound, and so does rounding to
  the nearest double for the integers up to \<open>2 ^ 53\<close>, which are doubles themselves.
\<close>

lemma rhe_floor: "\<lfloor>x\<rfloor> \<le> rhe x \<and> rhe x \<le> \<lfloor>x\<rfloor> + 1"
  by (simp add: rhe_def Let_def)

lemma rhe_of_int: "rhe (of_int n) = n"
  by (simp add: rhe_def Let_def)

lemma rhe_ge: "of_int a \<le> x \<Longrightarrow> a \<le> rhe x"
  using rhe_floor [of x] le_floor_iff [of a x] by linarith

lemma rhe_le:
  assumes "x \<le> of_int b"
  shows "rhe x \<le> b"
proof (cases "x = of_int b")
  case True
  then show ?thesis by (simp add: rhe_of_int)
next
  case False
  then have "x < of_int b" using assms by simp
  then have "\<lfloor>x\<rfloor> < b" by (simp add: floor_less_iff)
  then show ?thesis using rhe_floor [of x] by linarith
qed

lemma bitlen_bounds_rat:
  assumes "0 < p"
  shows "(2::rat) powi (bitlen p - 1) \<le> of_int p" "of_int p < (2::rat) powi bitlen p"
proof -
  have b: "1 \<le> bitlen p" using assms by (auto simp: bitlen_alt_def)
  have "(2::int) ^ nat (bitlen p - 1) \<le> p" "p < (2::int) ^ nat (bitlen p)"
    using bitlen_bounds [OF assms] by simp_all
  then have "(of_int ((2::int) ^ nat (bitlen p - 1)) :: rat) \<le> of_int p"
    "(of_int p :: rat) < of_int ((2::int) ^ nat (bitlen p))"
    by (simp_all only: of_int_le_iff of_int_less_iff)
  then show "(2::rat) powi (bitlen p - 1) \<le> of_int p" "of_int p < (2::rat) powi bitlen p"
    using b by (simp_all add: power_int_nonneg_exp)
qed

lemma binexp_bounds:
  assumes "0 < x"
  shows "2 powi binexp x \<le> x" "x < 2 powi (binexp x + 1)"
proof -
  obtain p q where pq: "quotient_of x = (p, q)" by (cases "quotient_of x")
  have q: "0 < q" using pq by (rule quotient_of_denom_pos)
  have x: "x = of_int p / of_int q" using pq by (rule quotient_of_div)
  have p: "0 < p" using assms x q by (simp add: zero_less_divide_iff)
  define k where "k = bitlen p - bitlen q"
  have xq: "x * of_int q = of_int p" using x q by simp
  have pw: "0 < (2::rat) powi i" for i by simp
  have "(2::rat) powi (k - 1) * 2 powi bitlen q = 2 powi (bitlen p - 1)"
    unfolding k_def by (simp flip: power_int_add)
  also have "\<dots> \<le> x * of_int q" using bitlen_bounds_rat(1) [OF p] xq by simp
  also have "\<dots> < x * 2 powi bitlen q"
    using bitlen_bounds_rat(2) [OF q] assms by (simp add: mult_strict_left_mono)
  finally have lo: "2 powi (k - 1) < x" using pw [of "bitlen q"] by simp
  have "x * 2 powi (bitlen q - 1) \<le> x * of_int q"
    using bitlen_bounds_rat(1) [OF q] assms by (simp add: mult_left_mono)
  also have "\<dots> < 2 powi bitlen p" using bitlen_bounds_rat(2) [OF p] xq by simp
  also have "\<dots> = 2 powi (k + 1) * 2 powi (bitlen q - 1)"
    unfolding k_def by (simp flip: power_int_add)
  finally have hi: "x < 2 powi (k + 1)" using pw [of "bitlen q - 1"] by simp
  have e: "binexp x = (if 2 powi k \<le> x then k else k - 1)"
    by (simp add: binexp_def k_def pq Let_def)
  show "2 powi binexp x \<le> x" using lo e by simp
  show "x < 2 powi (binexp x + 1)" using hi e by simp
qed

lemma fl_pos:
  "0 < x \<Longrightarrow> fl x = of_int (rhe (x / 2 powi (binexp x - 52))) * 2 powi (binexp x - 52)"
  by (simp add: fl_def)

lemma fl_nonneg:
  assumes "0 \<le> x"
  shows "0 \<le> fl x"
proof (cases "x = 0")
  case True
  then show ?thesis by (simp add: fl_def)
next
  case False
  then have x: "0 < x" using assms by simp
  have "of_int 0 \<le> x / 2 powi (binexp x - 52)" using x by simp
  then have "0 \<le> rhe (x / 2 powi (binexp x - 52))" by (rule rhe_ge)
  then show ?thesis by (simp add: fl_pos [OF x])
qed

lemma grid_small:
  assumes "e \<le> 52"
  shows "(2::rat) powi (e - 52) = 1 / 2 ^ nat (52 - e)"
proof -
  have "e - 52 = - int (nat (52 - e))" using assms by simp
  then have "(2::rat) powi (e - 52) = 2 powi (- int (nat (52 - e)))" by simp
  also have "\<dots> = 1 / 2 ^ nat (52 - e)"
    by (simp only: power_int_minus_divide power_int_of_nat)
  finally show ?thesis .
qed

lemma pow2_split: "(2::rat) powi 52 * 2 powi (e - 52) = 2 powi e"
proof -
  have "(2::rat) powi (52 + (e - 52)) = 2 powi 52 * 2 powi (e - 52)"
    by (rule power_int_add) simp
  moreover have "52 + (e - 52) = e" by simp
  ultimately show ?thesis by (simp only:)
qed

lemma of_int_le_pow53: "m \<le> 2 ^ 53 \<Longrightarrow> (of_int m :: rat) \<le> 2 powi 53"
proof -
  assume "m \<le> 2 ^ 53"
  then have "(of_int m :: rat) \<le> of_int (2 ^ 53)" by (simp only: of_int_le_iff)
  then show ?thesis by simp
qed

lemma fl_le_int:
  assumes "0 < x" "x \<le> of_int m" "m \<le> 2 ^ 53"
  shows "fl x \<le> of_int m"
proof -
  define e where "e = binexp x"
  have lo: "2 powi e \<le> x" unfolding e_def by (rule binexp_bounds(1) [OF assms(1)])
  have m53: "(of_int m :: rat) \<le> 2 powi 53" using assms(3) by (rule of_int_le_pow53)
  have "(2::rat) powi e \<le> 2 powi 53" using lo assms(2) m53 by linarith
  then have e53: "e \<le> 53" by (rule power_int_le_imp_le_exp [rotated]) simp_all
  show ?thesis
  proof (cases "e \<le> 52")
    case True
    define j where "j = nat (52 - e)"
    have s: "(2::rat) powi (e - 52) = 1 / 2 ^ j" unfolding j_def by (rule grid_small [OF True])
    have "x / 2 powi (e - 52) = x * 2 ^ j" by (simp add: s)
    also have "\<dots> \<le> of_int m * 2 ^ j" using assms(2) by simp
    also have "\<dots> = of_int (m * 2 ^ j)" by simp
    finally have "rhe (x / 2 powi (e - 52)) \<le> m * 2 ^ j" by (rule rhe_le)
    then have "(of_int (rhe (x / 2 powi (e - 52))) :: rat) \<le> of_int (m * 2 ^ j)"
      by (simp only: of_int_le_iff)
    then have "of_int (rhe (x / 2 powi (e - 52))) * (1 / 2 ^ j) \<le> of_int (m * 2 ^ j) * (1 / 2 ^ j :: rat)"
      by (intro mult_right_mono) simp_all
    then show ?thesis by (simp add: fl_pos [OF assms(1)] s flip: e_def)
  next
    case False
    then have e: "e = 53" using e53 by simp
    have "x = 2 powi 53" using lo assms(2) m53 e by simp
    then have x: "x = of_int (2 ^ 53)" by simp
    have mx: "of_int m = x" using assms(2) m53 lo e by simp
    have "x / 2 powi (e - 52) = of_int (2 ^ 52)" by (simp add: e x)
    then have "rhe (x / 2 powi (e - 52)) = 2 ^ 52" by (simp only: rhe_of_int)
    then have "fl x = of_int (2 ^ 52) * 2 powi (e - 52)"
      by (simp add: fl_pos [OF assms(1)] flip: e_def)
    also have "\<dots> = x" by (simp add: e x)
    finally show ?thesis using mx by simp
  qed
qed

lemma fl_ge_int:
  assumes "0 < m" "of_int m \<le> x" "m \<le> 2 ^ 53"
  shows "of_int m \<le> fl x"
proof -
  have "(0::rat) < of_int m" using assms(1) by simp
  then have x: "0 < x" using assms(2) by linarith
  define e where "e = binexp x"
  have lo: "2 powi e \<le> x" unfolding e_def by (rule binexp_bounds(1) [OF x])
  have f: "fl x = of_int (rhe (x / 2 powi (e - 52))) * 2 powi (e - 52)"
    unfolding e_def by (rule fl_pos [OF x])
  show ?thesis
  proof (cases "e \<le> 52")
    case True
    define j where "j = nat (52 - e)"
    have s: "(2::rat) powi (e - 52) = 1 / 2 ^ j" unfolding j_def by (rule grid_small [OF True])
    have "(of_int (m * 2 ^ j) :: rat) = of_int m * 2 ^ j" by simp
    also have "\<dots> \<le> x * 2 ^ j" using assms(2) by simp
    also have "\<dots> = x / 2 powi (e - 52)" by (simp add: s)
    finally have "m * 2 ^ j \<le> rhe (x / 2 powi (e - 52))" by (rule rhe_ge)
    then have "(of_int (m * 2 ^ j) :: rat) \<le> of_int (rhe (x / 2 powi (e - 52)))"
      by (simp only: of_int_le_iff)
    then have "of_int (m * 2 ^ j) * (1 / 2 ^ j :: rat)
        \<le> of_int (rhe (x / 2 powi (e - 52))) * (1 / 2 ^ j)"
      by (intro mult_right_mono) simp_all
    moreover have "of_int (m * 2 ^ j) * (1 / 2 ^ j :: rat) = of_int m" by simp
    ultimately show ?thesis unfolding f s by (simp only:)
  next
    case False
    then have e: "53 \<le> e" by simp
    have pw: "0 < (2::rat) powi (e - 52)" by simp
    have "(2::rat) powi 52 * 2 powi (e - 52) \<le> x" using lo by (simp only: pow2_split)
    then have "(2::rat) powi 52 \<le> x / 2 powi (e - 52)"
      using pw by (simp only: pos_le_divide_eq)
    moreover have "(2::rat) powi 52 = of_int (2 ^ 52)" by simp
    ultimately have "(of_int (2 ^ 52) :: rat) \<le> x / 2 powi (e - 52)" by (simp only:)
    then have "2 ^ 52 \<le> rhe (x / 2 powi (e - 52))" by (rule rhe_ge)
    then have "(of_int (2 ^ 52) :: rat) \<le> of_int (rhe (x / 2 powi (e - 52)))"
      by (simp only: of_int_le_iff)
    then have "of_int (2 ^ 52) * 2 powi (e - 52)
        \<le> of_int (rhe (x / 2 powi (e - 52))) * (2::rat) powi (e - 52)"
      using pw by (intro mult_right_mono) simp_all
    then have "(2::rat) powi 52 * 2 powi (e - 52) \<le> fl x"
      unfolding f \<open>(2::rat) powi 52 = of_int (2 ^ 52)\<close> .
    then have "(2::rat) powi e \<le> fl x" by (simp only: pow2_split)
    moreover have "(2::rat) powi 53 \<le> 2 powi e" using e by (intro power_int_increasing) simp_all
    moreover have "(of_int m :: rat) \<le> 2 powi 53" using assms(3) by (rule of_int_le_pow53)
    ultimately show ?thesis by linarith
  qed
qed

lemma fl_le_int0:
  assumes "0 \<le> x" "x \<le> of_int m" "m \<le> 2 ^ 53"
  shows "fl x \<le> of_int m"
proof (cases "x = 0")
  case True
  then show ?thesis using assms(2) by (simp add: fl_def)
next
  case False
  then have "0 < x" using assms(1) by simp
  then show ?thesis using assms(2,3) by (rule fl_le_int)
qed

lemma fl_zero: "fl 0 = 0"
  by (simp add: fl_def)

lemma round2_zero: "round2 0 = 0"
  by (simp add: round2_def rhe_of_int [of 0, simplified] fl_zero)

lemma round2_bounds:
  assumes "0 \<le> p" "p \<le> 100"
  shows "0 \<le> round2 p" "round2 p \<le> 100"
proof -
  have "of_int 0 \<le> p * 100" using assms(1) by simp
  then have lo: "0 \<le> rhe (p * 100)" by (rule rhe_ge)
  have "p * 100 \<le> of_int 10000" using assms(2) by simp
  then have hi: "rhe (p * 100) \<le> 10000" by (rule rhe_le)
  have a: "(0::rat) \<le> of_int (rhe (p * 100)) / 100" using lo by simp
  have "(of_int (rhe (p * 100)) :: rat) \<le> of_int 10000" using hi by (simp only: of_int_le_iff)
  then have b: "(of_int (rhe (p * 100)) :: rat) / 100 \<le> of_int 100" by simp
  show "0 \<le> round2 p" unfolding round2_def using a by (rule fl_nonneg)
  have "fl (of_int (rhe (p * 100)) / 100) \<le> of_int 100"
    using a b by (rule fl_le_int0) simp
  then show "round2 p \<le> 100" by (simp add: round2_def)
qed

lemma percentage_bounds:
  assumes "0 \<le> g" "g \<le> n" "0 < n"
  shows "0 \<le> fmul (truediv g n) 100" "fmul (truediv g n) 100 \<le> 100"
proof -
  have q0: "(0::rat) \<le> of_int g / of_int n" using assms by simp
  have "(of_int g :: rat) \<le> of_int n" using assms(2) by (simp only: of_int_le_iff)
  then have q1: "(of_int g :: rat) / of_int n \<le> of_int 1" using assms(3) by simp
  have t0: "0 \<le> truediv g n" unfolding truediv_def using q0 by (rule fl_nonneg)
  have t1: "truediv g n \<le> of_int 1"
    unfolding truediv_def using q0 q1 by (rule fl_le_int0) simp
  have p0: "0 \<le> truediv g n * 100" using t0 by simp
  have p1: "truediv g n * 100 \<le> of_int 100" using t1 by simp
  show "0 \<le> fmul (truediv g n) 100" unfolding fmul_def using p0 by (rule fl_nonneg)
  have "fl (truediv g n * 100) \<le> of_int 100" using p0 p1 by (rule fl_le_int0) simp
  then show "fmul (truediv g n) 100 \<le> 100" by (simp add: fmul_def)
qed

lemma percentage_zero: "fmul (truediv 0 n) 100 = 0"
  by (simp add: fmul_def truediv_def fl_zero)

lemma count_le_len: "count c s \<le> length s"
  by (simp add: count_def)

lemma make_row_percentage:
  assumes "make_row r = Inr x"
  shows "gap_percentage x =
     round2 (if length_col x > 0 then fmul (truediv (gap_count x) (length_col x)) 100 else 0)"
  using assms by (auto simp: make_row_def Let_def split: sum.splits)

section \<open>The gap percentage\<close>

text \<open>
  Claim C7, as the specification states it: the gap percentage of a row is
  \<^verbatim>\<open>round(100 * gap_count / length, 2)\<close>. The code divides first and multiplies by 100
  afterwards, two roundings instead of one. For a sequence of length 160 with 23 gaps
  the quotient times 100 is a double just below 14.375 and the row has the double of
  14.37; the expression of the specification gives the double of 14.38, which is also
  what rounding the exact percentage 14.375 gives.
\<close>

theorem gap_percentage_counterexample:
  "make_row \<lparr>rec_id = ''a'', description = ''a'',
             seq = replicate 23 CHR ''-'' @ replicate 137 CHR ''A''\<rparr>
     = Inr \<lparr>id_col = ''a'', uniref_id = ''a'', full_header = ''a'',
            sequence = replicate 23 CHR ''-'' @ replicate 137 CHR ''A'',
            length_col = 160, gap_count = 23,
            gap_percentage = 8089590830664253 / 562949953421312\<rparr>
   \<and> spec_gap_percentage 23 160 = 8095220330198467 / 562949953421312
   \<and> fl (1437 / 100) = 8089590830664253 / 562949953421312
   \<and> fl (1438 / 100) = 8095220330198467 / 562949953421312
   \<and> of_int (rhe (100 * (100 * 23 / 160))) / 100 = (1438 / 100 :: rat)"
  by code_simp

text \<open>
  Claim C7, amended. For every row the parser builds, the gap percentage is
  \<^verbatim>\<open>round((gap_count / length) * 100, 2)\<close> in double arithmetic, the division rounded
  before the multiplication, when the length is positive, and 0 when the length is 0;
  it lies between 0 and 100, and it is 0 whenever the gap count is 0.
\<close>

theorem gap_percentage_row:
  assumes "make_row r = Inr x"
  shows "gap_percentage x =
           (if length_col x > 0
            then round2 (fmul (truediv (gap_count x) (length_col x)) 100) else 0)
       \<and> 0 \<le> gap_percentage x \<and> gap_percentage x \<le> 100
       \<and> (gap_count x = 0 \<longrightarrow> gap_percentage x = 0)"
proof -
  let ?g = "gap_count x" and ?n = "length_col x"
  have g: "0 \<le> ?g" "?g \<le> ?n"
    using make_row_fields(2,3) [OF assms] count_le_len [of "CHR ''-''" "seq r"] by simp_all
  have e: "gap_percentage x = (if ?n > 0 then round2 (fmul (truediv ?g ?n) 100) else 0)"
    using make_row_percentage [OF assms] by (simp add: round2_zero)
  show ?thesis
  proof (cases "?n > 0")
    case True
    have "0 \<le> round2 (fmul (truediv ?g ?n) 100)" "round2 (fmul (truediv ?g ?n) 100) \<le> 100"
      using percentage_bounds [OF g True] by (rule round2_bounds)+
    moreover have "?g = 0 \<longrightarrow> round2 (fmul (truediv ?g ?n) 100) = 0"
      by (simp add: percentage_zero round2_zero)
    ultimately show ?thesis using e True by simp
  next
    case False
    then show ?thesis using e by simp
  qed
qed

theorem gap_percentage_row_witness:
  "make_row \<lparr>rec_id = ''a'', description = ''a one'', seq = ''MK-KVGT''\<rparr>
     = Inr \<lparr>id_col = ''a'', uniref_id = ''a'', full_header = ''a one'', sequence = ''MK-KVGT'',
            length_col = 7, gap_count = 1, gap_percentage = 2011138708597637 / 140737488355328\<rparr>
   \<and> round2 (fmul (truediv 1 7) 100) = 2011138708597637 / 140737488355328
   \<and> (0::rat) \<le> 2011138708597637 / 140737488355328
   \<and> (2011138708597637 / 140737488355328 :: rat) \<le> 100
   \<and> fl (1429 / 100) = 2011138708597637 / 140737488355328"
proof -
  let ?r = "\<lparr>rec_id = ''a'', description = ''a one'', seq = ''MK-KVGT''\<rparr>"
  let ?x = "\<lparr>id_col = ''a'', uniref_id = ''a'', full_header = ''a one'', sequence = ''MK-KVGT'',
            length_col = 7, gap_count = 1, gap_percentage = 2011138708597637 / 140737488355328\<rparr>"
  have m: "make_row ?r = Inr ?x" by code_simp
  have f: "fl (1429 / 100) = 2011138708597637 / 140737488355328" by code_simp
  show ?thesis using gap_percentage_row [OF m] m f by simp
qed

section \<open>Statistics of parsed rows\<close>

lemma collect_rows:
  "collect recs = Inr rs \<Longrightarrow> list_all2 (\<lambda>r x. make_row r = Inr x) recs rs"
proof (induction recs arbitrary: rs)
  case Nil
  then show ?case by simp
next
  case (Cons r recs)
  then show ?case by (auto split: sum.splits)
qed

lemma collect_lengths_nonneg:
  assumes "collect recs = Inr rs"
  shows "\<forall>x\<in>set rs. 0 \<le> length_col x"
proof
  fix x assume "x \<in> set rs"
  then obtain r where "make_row r = Inr x"
    using collect_rows [OF assms] by (auto simp: list_all2_conv_all_nth in_set_conv_nth)
  then show "0 \<le> length_col x" by (simp add: make_row_fields(2))
qed

lemma sum_list_between:
  fixes xs :: "int list"
  assumes "\<forall>x\<in>set xs. a \<le> x \<and> x \<le> b"
  shows "a * int (length xs) \<le> sum_list xs \<and> sum_list xs \<le> b * int (length xs)"
  using assms
proof (induction xs)
  case Nil
  then show ?case by simp
next
  case (Cons x xs)
  then have "a \<le> x" "x \<le> b"
    "a * int (length xs) \<le> sum_list xs" "sum_list xs \<le> b * int (length xs)" by simp_all
  then show ?case by (simp add: algebra_simps)
qed

lemma member_le_sum_list_int:
  fixes xs :: "int list"
  assumes "\<forall>x\<in>set xs. 0 \<le> x" "y \<in> set xs"
  shows "y \<le> sum_list xs"
  using assms
proof (induction xs)
  case Nil
  then show ?case by simp
next
  case (Cons x xs)
  have "0 \<le> sum_list xs" using Cons.prems(1) by (simp add: sum_list_nonneg)
  then show ?case using Cons by auto
qed

lemma mean_int_between:
  fixes xs :: "int list"
  assumes ne: "xs \<noteq> []" and nn: "\<forall>x\<in>set xs. 0 \<le> x" and tot: "sum_list xs \<le> 2 ^ 53"
  shows "of_int (Min (set xs)) \<le> fl (of_int (sum_list xs) / of_int (int (length xs)))"
    "fl (of_int (sum_list xs) / of_int (int (length xs))) \<le> of_int (Max (set xs))"
proof -
  let ?lo = "Min (set xs)" and ?hi = "Max (set xs)" and ?n = "int (length xs)"
  let ?q = "(of_int (sum_list xs) :: rat) / of_int ?n"
  have n: "0 < ?n" using ne by simp
  have "\<forall>x\<in>set xs. ?lo \<le> x \<and> x \<le> ?hi" by simp
  then have s: "?lo * ?n \<le> sum_list xs" "sum_list xs \<le> ?hi * ?n"
    using sum_list_between by blast+
  have "(of_int (?lo * ?n) :: rat) \<le> of_int (sum_list xs)"
    using s(1) by (simp only: of_int_le_iff)
  then have lo: "of_int ?lo \<le> ?q" using n by (simp add: pos_le_divide_eq)
  have "(of_int (sum_list xs) :: rat) \<le> of_int (?hi * ?n)"
    using s(2) by (simp only: of_int_le_iff)
  then have hi: "?q \<le> of_int ?hi" using n by (simp add: pos_divide_le_eq)
  have m: "?lo \<in> set xs" "?hi \<in> set xs" using ne by simp_all
  have lo0: "0 \<le> ?lo" using nn m(1) by blast
  have hi53: "?hi \<le> 2 ^ 53" using member_le_sum_list_int [OF nn m(2)] tot by linarith
  have "?lo \<le> ?hi" using m(1) by (intro Max_ge) simp_all
  then have lo53: "?lo \<le> 2 ^ 53" using hi53 by linarith
  have q0: "0 \<le> ?q" using lo lo0 by (smt (verit) of_int_0_le_iff order_trans)
  show "fl ?q \<le> of_int ?hi" using q0 hi hi53 by (rule fl_le_int0)
  show "of_int ?lo \<le> fl ?q"
  proof (cases "?lo = 0")
    case True
    then show ?thesis using fl_nonneg [OF q0] by simp
  next
    case False
    then have "0 < ?lo" using lo0 by simp
    then show ?thesis using lo lo53 by (rule fl_ge_int)
  qed
qed

lemma min_int_Min: "xs \<noteq> [] \<Longrightarrow> min_int xs = Val (Min (set xs))"
  by (cases xs) (simp_all add: min_int_def Min.set_eq_fold [symmetric])

lemma max_int_Max: "xs \<noteq> [] \<Longrightarrow> max_int xs = Val (Max (set xs))"
  by (cases xs) (simp_all add: max_int_def Max.set_eq_fold [symmetric])

text \<open>
  Claim C10. For every non-empty collection of rows the parser builds, whose lengths
  total at most \<open>2 ^ 53\<close> (the bound under which \<open>mean_int\<close> is the mean pandas
  computes), the statistics are returned and satisfy: the minimum length is at most the
  average length, which is at most the maximum length; the number of sequences with
  gaps lies between 0 and the total; the total is the number of rows; and the number of
  sequences with gaps is the number of rows whose gap count is positive.
\<close>

theorem statistics_bounds:
  assumes "collect recs = Inr rs" "rs \<noteq> []" "sum_list (map length_col rs) \<le> 2 ^ 53"
  shows "\<exists>st lo av hi. get_statistics fmean (pd_DataFrame rs) = Inr st
     \<and> min_length st = Val lo \<and> avg_length st = Val av \<and> max_length st = Val hi
     \<and> of_int lo \<le> av \<and> av \<le> of_int hi
     \<and> 0 \<le> sequences_with_gaps st \<and> sequences_with_gaps st \<le> total_sequences st
     \<and> total_sequences st = int (length rs)
     \<and> sequences_with_gaps st = int (length (filter (\<lambda>x. 0 < gap_count x) rs))"
proof -
  let ?xs = "map length_col rs"
  let ?st = "\<lparr>total_sequences = int (length rs),
              avg_length = mean_int ?xs, min_length = min_int ?xs, max_length = max_int ?xs,
              avg_gap_percentage = mean_float fmean (map gap_percentage rs),
              sequences_with_gaps = int (length (filter (\<lambda>g. g > 0) (map gap_count rs)))\<rparr>"
  have ne: "?xs \<noteq> []" using assms(2) by simp
  have nn: "\<forall>x\<in>set ?xs. 0 \<le> x" using collect_lengths_nonneg [OF assms(1)] by simp
  have g: "get_statistics fmean (pd_DataFrame rs) = Inr ?st"
    using assms(2)
    by (simp add: get_statistics_def pd_DataFrame_def column_def row_columns_def)
  have c: "length (filter (\<lambda>g. g > 0) (map gap_count rs))
      = length (filter (\<lambda>x. 0 < gap_count x) rs)"
    by (simp add: filter_map comp_def)
  have a: "avg_length ?st = Val (fl (of_int (sum_list ?xs) / of_int (int (length ?xs))))"
    using ne by (simp add: mean_int_def)
  have "min_length ?st = Val (Min (set ?xs))" "max_length ?st = Val (Max (set ?xs))"
    using ne by (simp_all add: min_int_Min max_int_Max)
  moreover have "sequences_with_gaps ?st \<le> total_sequences ?st" by simp
  moreover have "0 \<le> sequences_with_gaps ?st" by simp
  moreover have "total_sequences ?st = int (length rs)" by simp
  moreover have "sequences_with_gaps ?st = int (length (filter (\<lambda>x. 0 < gap_count x) rs))"
    using c by simp
  ultimately show ?thesis
    using g a mean_int_between [OF ne nn assms(3)] by blast
qed

theorem statistics_bounds_witness:
  "collect [\<lparr>rec_id = ''a'', description = ''a one'', seq = ''MK-KVGT''\<rparr>,
            \<lparr>rec_id = ''b'', description = ''b two'', seq = ''--AA''\<rparr>]
     = Inr [\<lparr>id_col = ''a'', uniref_id = ''a'', full_header = ''a one'', sequence = ''MK-KVGT'',
             length_col = 7, gap_count = 1,
             gap_percentage = 2011138708597637 / 140737488355328\<rparr>,
            \<lparr>id_col = ''b'', uniref_id = ''b'', full_header = ''b two'', sequence = ''--AA'',
             length_col = 4, gap_count = 2, gap_percentage = 50\<rparr>]
   \<and> get_statistics (\<lambda>xs. 0)
       (pd_DataFrame
         [\<lparr>id_col = ''a'', uniref_id = ''a'', full_header = ''a one'', sequence = ''MK-KVGT'',
           length_col = 7, gap_count = 1,
           gap_percentage = 2011138708597637 / 140737488355328\<rparr>,
          \<lparr>id_col = ''b'', uniref_id = ''b'', full_header = ''b two'', sequence = ''--AA'',
           length_col = 4, gap_count = 2, gap_percentage = 50\<rparr>])
     = Inr \<lparr>total_sequences = 2, avg_length = Val (11 / 2), min_length = Val 4,
            max_length = Val 7, avg_gap_percentage = Val 0, sequences_with_gaps = 2\<rparr>
   \<and> (of_int 4 :: rat) \<le> 11 / 2 \<and> (11 / 2 :: rat) \<le> of_int 7"
proof -
  let ?recs = "[\<lparr>rec_id = ''a'', description = ''a one'', seq = ''MK-KVGT''\<rparr>,
            \<lparr>rec_id = ''b'', description = ''b two'', seq = ''--AA''\<rparr>]"
  let ?rs = "[\<lparr>id_col = ''a'', uniref_id = ''a'', full_header = ''a one'', sequence = ''MK-KVGT'',
             length_col = 7, gap_count = 1,
             gap_percentage = 2011138708597637 / 140737488355328\<rparr>,
            \<lparr>id_col = ''b'', uniref_id = ''b'', full_header = ''b two'', sequence = ''--AA'',
             length_col = 4, gap_count = 2, gap_percentage = 50\<rparr>]"
  let ?st = "\<lparr>total_sequences = 2, avg_length = Val (11 / 2), min_length = Val 4,
            max_length = Val 7, avg_gap_percentage = Val 0, sequences_with_gaps = 2\<rparr>"
  have c: "collect ?recs = Inr ?rs" by code_simp
  have n: "?rs \<noteq> []" by simp
  have s: "sum_list (map length_col ?rs) \<le> 2 ^ 53" by simp
  have g: "get_statistics (\<lambda>xs. 0) (pd_DataFrame ?rs) = Inr ?st" by code_simp
  obtain st lo av hi where "get_statistics (\<lambda>xs. 0) (pd_DataFrame ?rs) = Inr st"
    "min_length st = Val lo" "avg_length st = Val av" "max_length st = Val hi"
    "of_int lo \<le> av" "av \<le> of_int hi"
    using statistics_bounds [OF c n s, of "\<lambda>xs. 0"] by blast
  then have "(of_int 4 :: rat) \<le> 11 / 2 \<and> (11 / 2 :: rat) \<le> of_int 7"
    using g by auto
  then show ?thesis using c g by blast
qed

end
